theory Spec2Isabelle
  imports Main "HOL-Library.Multiset" "HOL-Library.Word"
begin

section \<open>The restore engine of drone-cache (cache/restorer.go)\<close>

text \<open>
  The development embeds \<^verbatim>\<open>src/cache/restorer.go\<close>: the methods \<^verbatim>\<open>Restore\<close>,
  \<^verbatim>\<open>restore\<close> and \<^verbatim>\<open>generateKey\<close> of \<^verbatim>\<open>restorer\<close> and the helpers
  \<^verbatim>\<open>getSeparator\<close> and \<^verbatim>\<open>writeCacheMetadata\<close>. Go strings are byte sequences,
  here \<open>string\<close>. Collaborators behind interfaces (storage, archive, key generators)
  and the host (operating system, JSON encoder, size formatter) are parameters of the
  model: records of functions. A Go result \<^verbatim>\<open>(v, err)\<close> is a pair whose second
  component is \<open>None\<close> for \<^verbatim>\<open>nil\<close>.
\<close>

subsection \<open>Package strings\<close>

text \<open>The backslash, written by its code so that no string literal has to hold it.\<close>

definition backslash :: char where
  "backslash = CHR 0x5C"

definition HasPrefix :: "string \<Rightarrow> string \<Rightarrow> bool" where
  "HasPrefix str pre = (length pre \<le> length str \<and> take (length pre) str = pre)"

definition HasSuffix :: "string \<Rightarrow> string \<Rightarrow> bool" where
  "HasSuffix str suf =
     (length suf \<le> length str \<and> drop (length str - length suf) str = suf)"

definition TrimPrefix :: "string \<Rightarrow> string \<Rightarrow> string" where
  "TrimPrefix str pre = (if HasPrefix str pre then drop (length pre) str else str)"

fun strings_Join :: "string list \<Rightarrow> string \<Rightarrow> string" where
  "strings_Join [] sep = []"
| "strings_Join [e] sep = e"
| "strings_Join (e # es) sep = e @ sep @ strings_Join es sep"

subsection \<open>Package path/filepath\<close>

text \<open>
  The standard library's lexical path functions, for a host given by \<open>win\<close>
  (\<^verbatim>\<open>runtime.GOOS == "windows"\<close>). \<open>Clean\<close> follows the library's loop over the path
  with its output buffer \<open>out\<close> (of length \<^verbatim>\<open>out.w\<close>) and the index \<open>dotdot\<close>.
  On Windows the model is the library's treatment of a path that has no volume name
  (no drive letter, no UNC or device prefix): \<^verbatim>\<open>volumeNameLen\<close> is taken as 0.
\<close>

definition Separator :: "bool \<Rightarrow> char" where
  "Separator win = (if win then backslash else CHR ''/'')"

definition IsPathSeparator :: "bool \<Rightarrow> char \<Rightarrow> bool" where
  "IsPathSeparator win c = (c = CHR ''/'' \<or> (win \<and> c = backslash))"

definition ToSlash :: "bool \<Rightarrow> string \<Rightarrow> string" where
  "ToSlash win path =
     (if Separator win = CHR ''/'' then path
      else map (\<lambda>c. if c = Separator win then CHR ''/'' else c) path)"

definition FromSlash :: "bool \<Rightarrow> string \<Rightarrow> string" where
  "FromSlash win path =
     (if Separator win = CHR ''/'' then path
      else map (\<lambda>c. if c = CHR ''/'' then Separator win else c) path)"

text \<open>
  The backtracking of a \<^verbatim>\<open>..\<close> element: \<^verbatim>\<open>out.w--\<close>, then
  \<^verbatim>\<open>for out.w > dotdot && !IsPathSeparator(out.index(out.w)) { out.w-- }\<close>.
  The argument is \<^verbatim>\<open>out.w\<close> after the first decrement.
\<close>

fun backtrack :: "bool \<Rightarrow> string \<Rightarrow> nat \<Rightarrow> nat \<Rightarrow> nat" where
  "backtrack win out dotdot 0 = 0"
| "backtrack win out dotdot (Suc w) =
     (if dotdot < Suc w \<and> \<not> IsPathSeparator win (out ! Suc w)
      then backtrack win out dotdot w else Suc w)"

text \<open>
  The loop \<^verbatim>\<open>for r < n\<close> of \<^verbatim>\<open>Clean\<close>. The first argument of the path is the
  unread rest \<^verbatim>\<open>path[r:]\<close>; \<open>start\<close> holds while \<^verbatim>\<open>r == 0\<close>.
\<close>

function cleanLoop :: "bool \<Rightarrow> bool \<Rightarrow> bool \<Rightarrow> string \<Rightarrow> string \<Rightarrow> nat \<Rightarrow> string" where
  "cleanLoop win rooted start [] out dotdot = out"
| "cleanLoop win rooted start (c # rest) out dotdot =
     (if IsPathSeparator win c then cleanLoop win rooted False rest out dotdot
      else if c = CHR ''.'' \<and> (rest = [] \<or> IsPathSeparator win (hd rest))
        then cleanLoop win rooted False rest out dotdot
      else if c = CHR ''.'' \<and> rest \<noteq> [] \<and> hd rest = CHR ''.''
              \<and> (tl rest = [] \<or> IsPathSeparator win (hd (tl rest)))
        then (if dotdot < length out
              then cleanLoop win rooted False (tl rest)
                     (take (backtrack win out dotdot (length out - 1)) out) dotdot
              else if \<not> rooted
              then (let out' = (if out \<noteq> [] then out @ [Separator win] else out) @ ''..''
                    in cleanLoop win rooted False (tl rest) out' (length out'))
              else cleanLoop win rooted False (tl rest) out dotdot)
      else (let elem = takeWhile (\<lambda>x. \<not> IsPathSeparator win x) (c # rest);
                out1 = (if (rooted \<and> length out \<noteq> 1) \<or> (\<not> rooted \<and> length out \<noteq> 0)
                        then out @ [Separator win] else out);
                out2 = (if win \<and> out1 = [] \<and> \<not> start \<and> CHR '':'' \<in> set elem
                        then out1 @ [CHR ''.'', Separator win] else out1)
            in cleanLoop win rooted False
                 (dropWhile (\<lambda>x. \<not> IsPathSeparator win x) (c # rest)) (out2 @ elem) dotdot))"
  by pat_completeness auto
termination
  by (relation "measure (\<lambda>(win, rooted, start, path, out, dotdot). length path)")
     (auto simp: le_imp_less_Suc length_dropWhile_le)

definition Clean :: "bool \<Rightarrow> string \<Rightarrow> string" where
  "Clean win path =
     (if path = [] then ''.''
      else (let rooted = IsPathSeparator win (hd path);
                res = (if rooted then cleanLoop win True False (tl path) [Separator win] 1
                       else cleanLoop win False True path [] 0)
            in FromSlash win (if res = [] then ''.'' else res)))"

text \<open>
  \<^verbatim>\<open>filepath.Join\<close>: the elements from the first non-empty one on, joined by the
  separator and cleaned; the empty string when every element is empty.
\<close>

definition Join :: "bool \<Rightarrow> string list \<Rightarrow> string" where
  "Join win elem =
     (case dropWhile (\<lambda>e. e = []) elem of
        [] \<Rightarrow> []
      | es \<Rightarrow> Clean win (strings_Join es [Separator win]))"

text \<open>\<^verbatim>\<open>filepath.Dir\<close>: everything up to the last separator, cleaned.\<close>

definition Dir :: "bool \<Rightarrow> string \<Rightarrow> string" where
  "Dir win path = Clean win (rev (dropWhile (\<lambda>x. \<not> IsPathSeparator win x) (rev path)))"

subsection \<open>Errors, collaborators and the host\<close>

text \<open>
  Modelled from the spec: \<^verbatim>\<open>CacheMetadata\<close>, declared outside \<^verbatim>\<open>restorer.go\<close>;
  the spec's CacheMetadata is \<^verbatim>\<open>{cacheSize: human-readable byte count}\<close>.
\<close>

record CacheMetadata =
  CacheSize :: string

text \<open>
  Modelled from the spec: \<^verbatim>\<open>internal.MultiError\<close> and the sentinel
  \<^verbatim>\<open>common.ErrNotImplemented\<close>, declared outside \<^verbatim>\<open>restorer.go\<close>. The spec's
  AggregatedError is an ordered collection of failures whose \<^verbatim>\<open>err()\<close> is nil exactly
  when it is empty: \<open>MultiError\<close> holds the errors in the order of the calls of
  \<^verbatim>\<open>Add\<close>. The sentinel is compared by identity, here by equality with the constructor
  \<open>ErrNotImplemented\<close>.
  The other values of Go's \<^verbatim>\<open>error\<close>: \<open>Errorf\<close> is \<^verbatim>\<open>fmt.Errorf\<close> with its format
  string and its arguments kept as they are passed, and \<open>External\<close> is any other error
  that a collaborator or the host returns.
\<close>

datatype err =
    ErrNotImplemented
  | External string
  | MultiError "err list"
  | Errorf string "fmtarg list"
and fmtarg =
    ArgS string
  | ArgE err
  | ArgMeta CacheMetadata

text \<open>
  Modelled from the spec: \<^verbatim>\<open>common.FileEntry\<close>, the spec's RemoteEntry
  \<^verbatim>\<open>(path, size, metadata)\<close>; \<^verbatim>\<open>Restore\<close> reads the path only.
\<close>

record FileEntry =
  Path :: string
  Size :: int

text \<open>
  Modelled from the spec: the interfaces \<^verbatim>\<open>key.Generator\<close>, \<^verbatim>\<open>storage.Storage\<close> and
  \<^verbatim>\<open>archive.Archive\<close> (the spec's \<^verbatim>\<open>generate(parts...) -> (string, error)\<close>,
  \<^verbatim>\<open>list(prefix) -> ([]RemoteEntry, error)\<close>, \<^verbatim>\<open>get(path, writer) -> error\<close> and
  \<^verbatim>\<open>extract(destinationDir, reader) -> (bytesWritten, error)\<close>).
  A pipe is what its reader meets: the bytes written into it, then the error it was
  closed with (\<open>None\<close>: closed without error, the reader meets the end of the stream).
  \<open>Get\<close> yields the bytes it wrote into the writer and the error it returned.
\<close>

type_synonym Generator = "string list \<Rightarrow> string \<times> err option"

type_synonym pipe = "string \<times> err option"

record Storage =
  List :: "string \<Rightarrow> FileEntry list \<times> err option"
  Get :: "string \<Rightarrow> string \<times> err option"

record Archive =
  Extract :: "string \<Rightarrow> pipe \<Rightarrow> 64 word \<times> err option"

text \<open>
  The struct \<^verbatim>\<open>restorer\<close> without its logger. The fields \<^verbatim>\<open>a\<close>, \<^verbatim>\<open>s\<close>,
  \<^verbatim>\<open>g\<close>, \<^verbatim>\<open>fg\<close> are \<open>r_a\<close>, \<open>r_s\<close>, \<open>r_g\<close>, \<open>r_fg\<close>; a generator that is
  \<^verbatim>\<open>nil\<close> is \<open>None\<close>.
\<close>

record restorer =
  r_a :: Archive
  r_s :: Storage
  r_g :: "Generator option"
  r_fg :: "Generator option"
  namespace :: string
  failIfKeyNotPresent :: bool
  enableCacheKeySeparator :: bool
  backend :: string
  accountID :: string

text \<open>
  The host: \<^verbatim>\<open>runtime.GOOS\<close>, \<^verbatim>\<open>humanize.Bytes\<close>, \<^verbatim>\<open>json.MarshalIndent\<close> (on a
  \<^verbatim>\<open>CacheMetadata\<close>, with the indentation the code passes), \<^verbatim>\<open>os.MkdirAll\<close> and
  \<^verbatim>\<open>os.WriteFile\<close> (with their permission argument).
\<close>

record host =
  GOOS :: string
  Bytes :: "64 word \<Rightarrow> string"
  MarshalIndent :: "CacheMetadata \<Rightarrow> string \<times> err option"
  MkdirAll :: "string \<Rightarrow> nat \<Rightarrow> err option"
  WriteFile :: "string \<Rightarrow> string \<Rightarrow> nat \<Rightarrow> err option"

definition windows :: "host \<Rightarrow> bool" where
  "windows h = (GOOS h = ''windows'')"

text \<open>A call either returns or panics (Go's run-time panic, here of a nil interface).\<close>

datatype 'a outcome = Returns 'a | Panics

text \<open>
  What a run does, in the order it does it: the calls of the collaborators and of the
  host, the start of a goroutine per destination, \<^verbatim>\<open>errs.Add\<close>, \<^verbatim>\<open>wg.Done\<close> and
  the return of \<^verbatim>\<open>wg.Wait\<close>.
\<close>

datatype event =
    EvList string
  | EvGo string string
  | EvGet string
  | EvExtract string
  | EvMkdirAll string
  | EvWriteFile string string
  | EvAdd err
  | EvDone string string
  | EvWait

subsection \<open>The helpers\<close>

definition PLUGIN_CACHE_INTEL_FILE_NAME :: string where
  "PLUGIN_CACHE_INTEL_FILE_NAME = ''plugin-cache-intel.json''"

definition getSeparator :: "host \<Rightarrow> string" where
  "getSeparator h = (if GOOS h = ''windows'' then [backslash] else ''/'')"

text \<open>\<^verbatim>\<open>generateKey\<close>; calling \<^verbatim>\<open>Generate\<close> on a nil \<^verbatim>\<open>r.g\<close> panics.\<close>

definition generateKey :: "restorer \<Rightarrow> string list \<Rightarrow> (string \<times> err option) outcome" where
  "generateKey r parts =
     (case r_g r of
        None \<Rightarrow> Panics
      | Some gen \<Rightarrow>
          (case gen parts of
             (key, None) \<Rightarrow> Returns (key, None)
           | (key, Some e) \<Rightarrow>
               (case r_fg r of
                  Some fgen \<Rightarrow>
                    (case fgen parts of
                       (key', None) \<Rightarrow> Returns (key', None)
                     | (key', Some e') \<Rightarrow> Returns ([], Some e'))
                | None \<Rightarrow> Returns ([], Some e))))"

text \<open>
  \<^verbatim>\<open>writeCacheMetadata\<close>: the error it returns and the host calls it made. The
  permission \<^verbatim>\<open>0644\<close> is 420.
\<close>

definition writeCacheMetadata :: "host \<Rightarrow> CacheMetadata \<Rightarrow> string \<Rightarrow> err option \<times> event list" where
  "writeCacheMetadata h data filename =
     (case MarshalIndent h data of
        (b, Some e) \<Rightarrow>
          (Some (Errorf ''failed with err %s to marshal output %+v'' [ArgE e, ArgMeta data]), [])
      | (b, None) \<Rightarrow>
          (let dir = Dir (windows h) filename in
           case MkdirAll h dir 420 of
             Some e \<Rightarrow>
               (Some (Errorf ''failed with err %s to create %s directory for cache metrics file''
                        [ArgE e, ArgS dir]),
                [EvMkdirAll dir])
           | None \<Rightarrow>
               (case WriteFile h filename b 420 of
                  Some e \<Rightarrow>
                    (Some (Errorf ''failed to write cache metrics to cache metrics file %s''
                             [ArgS filename]),
                     [EvMkdirAll dir, EvWriteFile filename b])
                | None \<Rightarrow> (None, [EvMkdirAll dir, EvWriteFile filename b]))))"

subsection \<open>One destination: restore\<close>

text \<open>
  The goroutine of \<^verbatim>\<open>restore\<close> that downloads: \<^verbatim>\<open>Get\<close> writes into the pipe; when
  it fails the pipe is closed with the wrapped error, otherwise the deferred close
  ends the stream.
\<close>

definition download :: "restorer \<Rightarrow> string \<Rightarrow> pipe" where
  "download r src =
     (case Get (r_s r) src of
        (bytes, Some e) \<Rightarrow>
          (bytes, Some (Errorf ''get file from storage backend, pipe writer failed, %w'' [ArgE e]))
      | (bytes, None) \<Rightarrow> (bytes, None))"

text \<open>
  \<^verbatim>\<open>restore\<close>: the error it returns and what it did. The value that
  \<^verbatim>\<open>writeCacheMetadata\<close> returns is dropped, as in the source. The deferred close of
  the pipe's reader cannot fail (closing an \<^verbatim>\<open>io.PipeReader\<close> always returns nil),
  so it leaves the named result as it is.
\<close>

definition restore :: "host \<Rightarrow> restorer \<Rightarrow> string \<Rightarrow> string \<Rightarrow> err option \<times> event list" where
  "restore h r src dst =
     (case Extract (r_a r) dst (download r src) of
        (written, Some e) \<Rightarrow>
          (Some (Errorf ''extract files from downloaded archive, pipe reader failed, %w'' [ArgE e]),
           [EvGet src, EvExtract dst])
      | (written, None) \<Rightarrow>
          (case writeCacheMetadata h \<lparr>CacheSize = Bytes h written\<rparr> PLUGIN_CACHE_INTEL_FILE_NAME of
             (werr, evs) \<Rightarrow> (None, [EvGet src, EvExtract dst] @ evs)))"

text \<open>
  The body of the goroutine that \<^verbatim>\<open>Restore\<close> starts for \<^verbatim>\<open>(src, dst)\<close>:
  \<^verbatim>\<open>restore\<close>, \<^verbatim>\<open>errs.Add\<close> of the wrapped error when it failed, and the deferred
  \<^verbatim>\<open>wg.Done\<close>.
\<close>

definition task :: "host \<Rightarrow> restorer \<Rightarrow> string \<times> string \<Rightarrow> event list" where
  "task h r sd =
     (case sd of (src, dst) \<Rightarrow>
        (case restore h r src dst of
           (Some e, evs) \<Rightarrow>
             evs @ [EvAdd (Errorf ''download from <%s> to <%s>, %w'' [ArgS src, ArgS dst, ArgE e]),
                    EvDone src dst]
         | (None, evs) \<Rightarrow> evs @ [EvDone src dst]))"

subsection \<open>Goroutines\<close>

text \<open>
  The goroutines run in an order the program does not fix. A schedule is a list of
  choices: \<open>0\<close> lets the loop of \<^verbatim>\<open>Restore\<close> start the goroutine of the next
  destination, \<open>Suc k\<close> lets the \<open>k\<close>-th started goroutine do its next step; a choice
  that names nothing to do is skipped. \<^verbatim>\<open>wg.Wait\<close> returns only when every
  goroutine is done, so when the schedule is used up the goroutines that still have
  steps run them, and the loop starts the remaining ones. The schedule is a parameter of
  \<open>Restore\<close>, and the theorems below hold for every schedule.
\<close>

fun interleave :: "nat list \<Rightarrow> (event \<times> event list) list \<Rightarrow> event list list \<Rightarrow> event list" where
  "interleave [] pending running =
     concat running @ concat (map (\<lambda>(go, steps). go # steps) pending)"
| "interleave (0 # sched) pending running =
     (case pending of
        [] \<Rightarrow> interleave sched [] running
      | (go, steps) # ps \<Rightarrow> go # interleave sched ps (running @ [steps]))"
| "interleave (Suc k # sched) pending running =
     (if k < length running
      then (case running ! k of
              [] \<Rightarrow> interleave sched pending running
            | e # es \<Rightarrow> e # interleave sched pending (running[k := es]))
      else interleave sched pending running)"

text \<open>The errors that \<^verbatim>\<open>errs\<close> holds after a run, in the order they were added.\<close>

fun added :: "event list \<Rightarrow> err list" where
  "added [] = []"
| "added (EvAdd e # evs) = e # added evs"
| "added (ev # evs) = added evs"

text \<open>The calls of \<^verbatim>\<open>os.WriteFile\<close> in a run: the writes of the metadata artifact.\<close>

fun isWriteFile :: "event \<Rightarrow> bool" where
  "isWriteFile (EvWriteFile name b) = True"
| "isWriteFile ev = False"

text \<open>The calls of \<^verbatim>\<open>Get\<close> in a run: the downloads, with their remote source.\<close>

fun isGet :: "event \<Rightarrow> bool" where
  "isGet (EvGet src) = True"
| "isGet ev = False"

subsection \<open>Restore\<close>

text \<open>
  The local variable \<^verbatim>\<open>namespace\<close> of \<^verbatim>\<open>Restore\<close> is \<open>cleanedNamespace\<close>, its local
  variable \<^verbatim>\<open>prefix\<close> before the call of \<^verbatim>\<open>List\<close> is \<open>listPrefix\<close>.
  The discovery of \<^verbatim>\<open>Restore\<close> (\<^verbatim>\<open>if len(dsts) == 0 { ... }\<close>): the destinations
  after it, or the error that \<^verbatim>\<open>Restore\<close> returns from inside it, and the call of
  \<^verbatim>\<open>List\<close> when it was made.
\<close>

definition cleanedNamespace :: "host \<Rightarrow> restorer \<Rightarrow> string" where
  "cleanedNamespace h r = ToSlash (windows h) (Clean (windows h) (namespace r))"

definition listPrefix :: "host \<Rightarrow> restorer \<Rightarrow> string \<Rightarrow> string \<Rightarrow> string" where
  "listPrefix h r ns key =
     (let prefix = Join (windows h) [ns, key]
      in if \<not> HasSuffix prefix (getSeparator h) \<and> enableCacheKeySeparator r
         then prefix @ getSeparator h else prefix)"

definition discover :: "host \<Rightarrow> restorer \<Rightarrow> string \<Rightarrow> string \<Rightarrow> string list
                          \<Rightarrow> (err + string list) \<times> event list" where
  "discover h r ns key dsts =
     (if length dsts = 0
      then (let prefix = listPrefix h r ns key in
            case List (r_s r) prefix of
              (entries, None) \<Rightarrow>
                (if failIfKeyNotPresent r \<and> length entries = 0
                 then (Inl (Errorf ''key %s does not exist'' [ArgS prefix]), [EvList prefix])
                 else (let prefix' = (if backend r = ''harness''
                                      then accountID r @ ''/intel/'' @ prefix else prefix)
                       in (Inr (dsts @ map (\<lambda>e. if enableCacheKeySeparator r
                                                then TrimPrefix (Path e) prefix'
                                                else TrimPrefix (Path e) (prefix' @ getSeparator h))
                                         entries),
                           [EvList prefix])))
            | (entries, Some e) \<Rightarrow>
                (if e \<noteq> ErrNotImplemented then (Inl e, [EvList prefix])
                 else (Inr dsts, [EvList prefix])))
      else (Inr dsts, []))"

text \<open>
  What the discovery strips from the path of an entry: the second argument of
  \<^verbatim>\<open>strings.TrimPrefix\<close> in the loop over the entries, that is \<^verbatim>\<open>prefix\<close> after the
  harness branch, with the separator appended when \<^verbatim>\<open>enableCacheKeySeparator\<close> is off.
\<close>

definition stripPrefix :: "host \<Rightarrow> restorer \<Rightarrow> string \<Rightarrow> string \<Rightarrow> string" where
  "stripPrefix h r ns key =
     (let prefix = listPrefix h r ns key;
          prefix' = (if backend r = ''harness'' then accountID r @ ''/intel/'' @ prefix else prefix)
      in if enableCacheKeySeparator r then prefix' else prefix' @ getSeparator h)"

text \<open>The pair \<^verbatim>\<open>(src, dst)\<close> that the loop of \<^verbatim>\<open>Restore\<close> passes to a goroutine.\<close>

definition target :: "host \<Rightarrow> string \<Rightarrow> string \<Rightarrow> string \<Rightarrow> string \<times> string" where
  "target h ns key dst = (Join (windows h) [ns, key, dst], dst)"

text \<open>
  The statement \<^verbatim>\<open>go func(src, dst string) { ... }(src, dst)\<close>: the event of the
  start and the steps of the new goroutine.
\<close>

definition launch :: "host \<Rightarrow> restorer \<Rightarrow> string \<times> string \<Rightarrow> event \<times> event list" where
  "launch h r sd = (case sd of (src, dst) \<Rightarrow> (EvGo src dst, task h r sd))"

text \<open>
  \<^verbatim>\<open>Restore\<close> under a schedule: what the call does (it returns an error or nil, or
  panics) and the events of the run.
\<close>

definition Restore :: "host \<Rightarrow> restorer \<Rightarrow> nat list \<Rightarrow> string list
                         \<Rightarrow> err option outcome \<times> event list" where
  "Restore h r sched dsts =
     (case generateKey r [] of
        Panics \<Rightarrow> (Panics, [])
      | Returns (key, Some e) \<Rightarrow> (Returns (Some (Errorf ''generate key, %w'' [ArgE e])), [])
      | Returns (key, None) \<Rightarrow>
          (let ns = cleanedNamespace h r in
           case discover h r ns key dsts of
             (Inl e, evs) \<Rightarrow> (Returns (Some e), evs)
           | (Inr dsts', evs) \<Rightarrow>
               (let run = interleave sched (map (\<lambda>dst. launch h r (target h ns key dst)) dsts') [];
                    errs = added run
                in (if errs \<noteq> []
                    then Returns (Some (Errorf ''restore failed, %w'' [ArgE (MultiError errs)]))
                    else Returns None,
                    evs @ run @ [EvWait]))))"

subsection \<open>Sample hosts and restorers\<close>

text \<open>
  Concrete collaborators, for runs that can be evaluated. \<open>sampleBytes\<close> is
  \<^verbatim>\<open>humanize.Bytes\<close> on sizes below ten bytes (\<^verbatim>\<open>"4 B"\<close>), which is all the sample
  runs extract. The sample storage holds an archive under every name but those that end
  in \<^verbatim>\<open>bad\<close>; the sample archive reports the length of what it read.
\<close>

definition sampleBytes :: "64 word \<Rightarrow> string" where
  "sampleBytes w = (if unat w < 10 then [''0123456789'' ! unat w] @ '' B'' else ''10 B or more'')"

definition sampleMarshal :: "CacheMetadata \<Rightarrow> string \<times> err option" where
  "sampleMarshal d = (''{ cache_size: '' @ CacheSize d @ '' }'', None)"

definition linuxHost :: host where
  "linuxHost = \<lparr>GOOS = ''linux'', Bytes = sampleBytes, MarshalIndent = sampleMarshal,
                 MkdirAll = (\<lambda>dir perm. None), WriteFile = (\<lambda>name b perm. None)\<rparr>"

definition windowsHost :: host where
  "windowsHost = linuxHost\<lparr>GOOS := ''windows''\<rparr>"

definition readOnlyHost :: host where
  "readOnlyHost = linuxHost\<lparr>WriteFile := (\<lambda>name b perm. Some (External ''read-only file system''))\<rparr>"

definition sampleStorage :: Storage where
  "sampleStorage =
     \<lparr>List = (\<lambda>prefix. ([], Some ErrNotImplemented)),
      Get = (\<lambda>src. if HasSuffix src ''bad'' then ([], Some (External ''no such object''))
                   else (''data'', None))\<rparr>"

definition sampleArchive :: Archive where
  "sampleArchive =
     \<lparr>Extract = (\<lambda>dst p. case p of (bytes, Some e) \<Rightarrow> (0, Some e)
                            | (bytes, None) \<Rightarrow> (word_of_nat (length bytes), None))\<rparr>"

definition sampleRestorer :: restorer where
  "sampleRestorer =
     \<lparr>r_a = sampleArchive, r_s = sampleStorage,
      r_g = Some (\<lambda>parts. (''k'', None)), r_fg = None,
      namespace = ''ns'', failIfKeyNotPresent = False, enableCacheKeySeparator = False,
      backend = ''s3'', accountID = ''acct''\<rparr>"

text \<open>
  A storage that lists one entry, and the sample restorer on the harness backend, whose
  listing carries the routing prefix \<^verbatim>\<open>acct/intel/\<close>.
\<close>

definition listingStorage :: "string \<Rightarrow> Storage" where
  "listingStorage path = sampleStorage\<lparr>List := (\<lambda>prefix. ([\<lparr>Path = path, Size = 4\<rparr>], None))\<rparr>"

definition harnessRestorer :: restorer where
  "harnessRestorer =
     sampleRestorer\<lparr>r_s := listingStorage ''acct/intel/ns/k/a'', backend := ''harness''\<rparr>"

definition failingGenerator :: Generator where
  "failingGenerator parts = ([], Some (External ''template''))"

section \<open>Facts about the model\<close>

subsection \<open>Schedules\<close>

text \<open>
  A run holds every step of every goroutine and every start, whatever the schedule: the
  schedule only orders them.
\<close>

lemma mset_concat_update:
  "k < length running \<Longrightarrow> running ! k = e # es \<Longrightarrow>
   add_mset e (mset (concat (running[k := es]))) = mset (concat running)"
proof (induction running arbitrary: k)
  case Nil
  then show ?case by simp
next
  case (Cons x xs)
  show ?case
  proof (cases k)
    case 0
    with Cons.prems show ?thesis by simp
  next
    case (Suc j)
    with Cons.prems have "add_mset e (mset (concat (xs[j := es]))) = mset (concat xs)"
      by (intro Cons.IH) simp_all
    then have "mset (concat xs) = add_mset e (mset (concat (xs[j := es])))" by simp
    with Suc show ?thesis by simp
  qed
qed

lemma mset_interleave:
  "mset (interleave sched pending running) =
     mset (concat running) + mset (concat (map (\<lambda>(go, steps). go # steps) pending))"
proof (induction sched pending running rule: interleave.induct)
  case (1 pending running)
  show ?case by simp
next
  case (2 sched pending running)
  then show ?case by (cases pending) (auto)
next
  case (3 k sched pending running)
  show ?case
  proof (cases "k < length running")
    case False
    with 3 show ?thesis by simp
  next
    case True
    show ?thesis
    proof (cases "running ! k")
      case Nil
      with True 3 show ?thesis by simp
    next
      case (Cons e es)
      with True 3 have "mset (interleave (Suc k # sched) pending running)
          = add_mset e (mset (concat (running[k := es])))
            + mset (concat (map (\<lambda>(go, steps). go # steps) pending))"
        by simp
      with mset_concat_update [OF True Cons] show ?thesis by simp
    qed
  qed
qed

subsection \<open>The errors of a run\<close>

lemma added_append: "added (xs @ ys) = added xs @ added ys"
  by (induction xs rule: added.induct) simp_all

lemma added_filter: "added xs = concat (map (\<lambda>ev. case ev of EvAdd e \<Rightarrow> [e] | _ \<Rightarrow> []) xs)"
  by (induction xs rule: added.induct) simp_all

lemma mset_concat_map: "mset (concat (map f xs)) = (\<Sum>x\<in>#mset xs. mset (f x))"
  by (induction xs) simp_all

lemma mset_added_cong: "mset xs = mset ys \<Longrightarrow> mset (added xs) = mset (added ys)"
  by (simp add: added_filter mset_concat_map)



lemma added_writeCacheMetadata: "added (snd (writeCacheMetadata h d f)) = []"
  by (simp add: writeCacheMetadata_def Let_def split: prod.splits option.splits)

lemma added_restore: "added (snd (restore h r src dst)) = []"
proof (cases "Extract (r_a r) dst (download r src)")
  case (Pair written eerr)
  show ?thesis
  proof (cases eerr)
    case None
    obtain werr wevs
      where w: "writeCacheMetadata h \<lparr>CacheSize = Bytes h written\<rparr> PLUGIN_CACHE_INTEL_FILE_NAME = (werr, wevs)"
      by (cases "writeCacheMetadata h \<lparr>CacheSize = Bytes h written\<rparr> PLUGIN_CACHE_INTEL_FILE_NAME")
    from added_writeCacheMetadata [of h "\<lparr>CacheSize = Bytes h written\<rparr>" PLUGIN_CACHE_INTEL_FILE_NAME] w
    have "added wevs = []" by simp
    with Pair None w show ?thesis by (simp add: restore_def)
  next
    case (Some e)
    with Pair show ?thesis by (simp add: restore_def)
  qed
qed

lemma added_task:
  "added (task h r (src, dst)) =
     (case fst (restore h r src dst) of
        None \<Rightarrow> []
      | Some e \<Rightarrow> [Errorf ''download from <%s> to <%s>, %w'' [ArgS src, ArgS dst, ArgE e]])"
  using added_restore [of h r src dst]
  by (auto simp: task_def added_append split: prod.splits option.splits)

lemma added_concat: "added (concat xss) = concat (map added xss)"
  by (induction xss) (simp_all add: added_append)

lemma launch_steps:
  "(\<lambda>(go, steps). go # steps) \<circ> launch h r = (\<lambda>sd. EvGo (fst sd) (snd sd) # task h r sd)"
  by (rule ext) (simp add: launch_def split_beta)

lemma Restore_fanout:
  assumes "generateKey r [] = Returns (key, None)"
      and "discover h r (cleanedNamespace h r) key dsts = (Inr dsts', evs)"
  shows "Restore h r sched dsts =
           (let run = interleave sched
                        (map (launch h r) (map (target h (cleanedNamespace h r) key) dsts')) []
            in (if added run \<noteq> []
                then Returns (Some (Errorf ''restore failed, %w'' [ArgE (MultiError (added run))]))
                else Returns None,
                evs @ run @ [EvWait]))"
  using assms by (simp add: Restore_def Let_def comp_def)

lemma mset_added_fanout:
  "mset (added (interleave sched (map (launch h r) ts) []))
     = mset (concat (map (\<lambda>sd. added (task h r sd)) ts))"
proof -
  have "mset (interleave sched (map (launch h r) ts) [])
          = mset (concat (map (\<lambda>sd. EvGo (fst sd) (snd sd) # task h r sd) ts))"
    by (simp add: mset_interleave launch_steps)
  then have "mset (added (interleave sched (map (launch h r) ts) []))
          = mset (added (concat (map (\<lambda>sd. EvGo (fst sd) (snd sd) # task h r sd) ts)))"
    by (rule mset_added_cong)
  also have "added (concat (map (\<lambda>sd. EvGo (fst sd) (snd sd) # task h r sd) ts))
          = concat (map (\<lambda>sd. added (task h r sd)) ts)"
    by (simp add: added_concat comp_def)
  finally show ?thesis .
qed

subsection \<open>The events of a run\<close>

lemma set_interleave:
  "set (interleave sched pending running) =
     set (concat running) \<union> set (concat (map (\<lambda>(go, steps). go # steps) pending))"
proof -
  have "set_mset (mset (interleave sched pending running)) =
     set_mset (mset (concat running) + mset (concat (map (\<lambda>(go, steps). go # steps) pending)))"
    by (simp only: mset_interleave)
  then show ?thesis by simp
qed

lemma writeCacheMetadata_events:
  "set (snd (writeCacheMetadata h d f)) \<subseteq> {EvMkdirAll (Dir (windows h) f), EvWriteFile f (fst (MarshalIndent h d))}"
  by (auto simp: writeCacheMetadata_def Let_def split: prod.splits option.splits)

lemma restore_events:
  "ev \<in> set (snd (restore h r src dst)) \<Longrightarrow>
     ev = EvGet src \<or> ev = EvExtract dst \<or> (\<exists>dir. ev = EvMkdirAll dir) \<or> (\<exists>name b. ev = EvWriteFile name b)"
proof (cases "Extract (r_a r) dst (download r src)")
  case (Pair written eerr)
  assume ev: "ev \<in> set (snd (restore h r src dst))"
  show ?thesis
  proof (cases eerr)
    case None
    obtain werr wevs
      where w: "writeCacheMetadata h \<lparr>CacheSize = Bytes h written\<rparr> PLUGIN_CACHE_INTEL_FILE_NAME = (werr, wevs)"
      by (cases "writeCacheMetadata h \<lparr>CacheSize = Bytes h written\<rparr> PLUGIN_CACHE_INTEL_FILE_NAME")
    from writeCacheMetadata_events [of h "\<lparr>CacheSize = Bytes h written\<rparr>" PLUGIN_CACHE_INTEL_FILE_NAME] w
    have "set wevs \<subseteq> {EvMkdirAll (Dir (windows h) PLUGIN_CACHE_INTEL_FILE_NAME),
                       EvWriteFile PLUGIN_CACHE_INTEL_FILE_NAME (fst (MarshalIndent h \<lparr>CacheSize = Bytes h written\<rparr>))}"
      by simp
    with ev Pair None w show ?thesis by (auto simp: restore_def)
  next
    case (Some e)
    with ev Pair show ?thesis by (auto simp: restore_def)
  qed
qed

lemma task_alt:
  "task h r (src, dst) =
     snd (restore h r src dst)
     @ (case fst (restore h r src dst) of
          None \<Rightarrow> []
        | Some e \<Rightarrow> [EvAdd (Errorf ''download from <%s> to <%s>, %w'' [ArgS src, ArgS dst, ArgE e])])
     @ [EvDone src dst]"
  by (cases "restore h r src dst") (simp add: task_def split: option.splits)

lemma task_events:
  "ev \<in> set (task h r sd) \<Longrightarrow>
     ev = EvGet (fst sd) \<or> ev = EvExtract (snd sd) \<or> (\<exists>dir. ev = EvMkdirAll dir)
     \<or> (\<exists>name b. ev = EvWriteFile name b) \<or> (\<exists>e. ev = EvAdd e) \<or> ev = EvDone (fst sd) (snd sd)"
  using restore_events [of ev h r "fst sd" "snd sd"]
  by (cases sd) (auto simp: task_alt split: option.splits)

lemma fanout_events:
  assumes "ev \<in> set (interleave sched (map (launch h r) ts) [])"
  shows "(\<exists>src dst. ev = EvGo src dst) \<or> (\<exists>src. ev = EvGet src) \<or> (\<exists>dst. ev = EvExtract dst)
       \<or> (\<exists>dir. ev = EvMkdirAll dir) \<or> (\<exists>name b. ev = EvWriteFile name b)
       \<or> (\<exists>e. ev = EvAdd e) \<or> (\<exists>src dst. ev = EvDone src dst)"
proof -
  from assms obtain sd where "sd \<in> set ts" and "ev = EvGo (fst sd) (snd sd) \<or> ev \<in> set (task h r sd)"
    by (auto simp: set_interleave launch_def split: prod.splits)
  then show ?thesis using task_events [of ev h r sd] by blast
qed

lemma fanout_nil_iff:
  "added (interleave sched (map (launch h r) ts) []) = []
     \<longleftrightarrow> (\<forall>sd \<in> set ts. fst (restore h r (fst sd) (snd sd)) = None)"
proof -
  have "added (interleave sched (map (launch h r) ts) []) = []
          \<longleftrightarrow> concat (map (\<lambda>sd. added (task h r sd)) ts) = []"
    using mset_added_fanout [of sched h r ts] by (metis mset_zero_iff)
  moreover have "added (task h r sd) = [] \<longleftrightarrow> fst (restore h r (fst sd) (snd sd)) = None" for sd
    using added_task [of h r "fst sd" "snd sd"] by (simp split: option.splits)
  ultimately show ?thesis by simp
qed

lemma fst_restore:
  "fst (restore h r src dst) =
     (case snd (Extract (r_a r) dst (download r src)) of
        None \<Rightarrow> None
      | Some e \<Rightarrow> Some (Errorf ''extract files from downloaded archive, pipe reader failed, %w'' [ArgE e]))"
  by (simp add: restore_def split: prod.splits option.splits)

lemma interleave_nothing: "interleave sched [] [] = []"
  by (induction sched "[] :: (event \<times> event list) list" "[] :: event list list" rule: interleave.induct) simp_all

lemma discover_events:
  "snd (discover h r ns key dsts) = (if dsts = [] then [EvList (listPrefix h r ns key)] else [])"
  by (simp add: discover_def Let_def split: prod.splits option.splits)

lemma EvList_in_Restore:
  assumes "EvList p \<in> set (snd (Restore h r sched dsts))"
  shows "\<exists>key. generateKey r [] = Returns (key, None) \<and> dsts = []
               \<and> p = listPrefix h r (cleanedNamespace h r) key"
proof (cases "generateKey r []")
  case Panics
  with assms show ?thesis by (simp add: Restore_def)
next
  case (Returns ke)
  obtain key kerr where ke: "ke = (key, kerr)" by (cases ke)
  show ?thesis
  proof (cases kerr)
    case (Some e)
    with assms Returns ke show ?thesis by (simp add: Restore_def)
  next
    case None
    obtain res evs where d: "discover h r (cleanedNamespace h r) key dsts = (res, evs)"
      by (cases "discover h r (cleanedNamespace h r) key dsts")
    from discover_events [of h r "cleanedNamespace h r" key dsts] d
    have evs: "evs = (if dsts = [] then [EvList (listPrefix h r (cleanedNamespace h r) key)] else [])"
      by simp
    have "EvList p \<in> set evs"
    proof (cases res)
      case (Inl e)
      with assms Returns ke None d show ?thesis by (simp add: Restore_def)
    next
      case (Inr dsts')
      from assms Returns ke None d Inr
      have "EvList p \<in> set evs
            \<or> EvList p \<in> set (interleave sched
                 (map (launch h r) (map (target h (cleanedNamespace h r) key) dsts')) [])"
        by (auto simp: Restore_def Let_def comp_def)
      then show ?thesis
        using fanout_events [of "EvList p" sched h r "map (target h (cleanedNamespace h r) key) dsts'"]
        by auto
    qed
    with evs Returns ke None show ?thesis by (auto split: if_splits)
  qed
qed

subsection \<open>Writes of the metadata artifact\<close>

lemma filter_isWriteFile_task:
  "filter isWriteFile (task h r (src, dst)) = filter isWriteFile (snd (restore h r src dst))"
  by (simp add: task_alt split: option.splits)

lemma mset_writes_fanout:
  "mset (filter isWriteFile (interleave sched (map (launch h r) ts) []))
     = mset (concat (map (\<lambda>sd. filter isWriteFile (snd (restore h r (fst sd) (snd sd)))) ts))"
proof -
  have "mset (filter isWriteFile (interleave sched (map (launch h r) ts) []))
          = filter_mset isWriteFile (mset (concat (map (\<lambda>sd. EvGo (fst sd) (snd sd) # task h r sd) ts)))"
    by (simp add: mset_interleave launch_steps)
  also have "\<dots> = mset (filter isWriteFile (concat (map (\<lambda>sd. EvGo (fst sd) (snd sd) # task h r sd) ts)))"
    by simp
  also have "filter isWriteFile (concat (map (\<lambda>sd. EvGo (fst sd) (snd sd) # task h r sd) ts))
          = concat (map (\<lambda>sd. filter isWriteFile (snd (restore h r (fst sd) (snd sd)))) ts)"
  proof -
    have "filter isWriteFile (EvGo (fst sd) (snd sd) # task h r sd)
            = filter isWriteFile (snd (restore h r (fst sd) (snd sd)))" for sd
      using filter_isWriteFile_task [of h r "fst sd" "snd sd"] by simp
    then show ?thesis by (simp add: filter_concat comp_def)
  qed
  finally show ?thesis .
qed

lemma writes_of_restore:
  "filter isWriteFile (snd (restore h r src dst)) =
     (case Extract (r_a r) dst (download r src) of
        (written, Some e) \<Rightarrow> []
      | (written, None) \<Rightarrow>
          (case MarshalIndent h \<lparr>CacheSize = Bytes h written\<rparr> of
             (b, Some e) \<Rightarrow> []
           | (b, None) \<Rightarrow>
               (case MkdirAll h (Dir (windows h) PLUGIN_CACHE_INTEL_FILE_NAME) 420 of
                  Some e \<Rightarrow> []
                | None \<Rightarrow> [EvWriteFile PLUGIN_CACHE_INTEL_FILE_NAME b])))"
  by (simp add: restore_def writeCacheMetadata_def Let_def split: prod.splits option.splits)

subsection \<open>When Restore returns nil\<close>

lemma Restore_nil_iff:
  assumes key: "generateKey r [] = Returns (key, None)"
      and disc: "discover h r (cleanedNamespace h r) key dsts = (Inr dsts', evs)"
  shows "fst (Restore h r sched dsts) = Returns None
           \<longleftrightarrow> (\<forall>dst \<in> set dsts'.
                  snd (Extract (r_a r) dst (download r (fst (target h (cleanedNamespace h r) key dst)))) = None)"
proof -
  let ?ts = "map (target h (cleanedNamespace h r) key) dsts'"
  have "fst (Restore h r sched dsts) = Returns None
          \<longleftrightarrow> added (interleave sched (map (launch h r) ?ts) []) = []"
    using Restore_fanout [OF key disc, of sched] by (simp add: Let_def)
  also have "\<dots> \<longleftrightarrow> (\<forall>sd \<in> set ?ts. fst (restore h r (fst sd) (snd sd)) = None)"
    by (rule fanout_nil_iff)
  also have "\<dots> \<longleftrightarrow> (\<forall>dst \<in> set dsts'.
                  snd (Extract (r_a r) dst (download r (fst (target h (cleanedNamespace h r) key dst)))) = None)"
    by (simp add: fst_restore target_def split: option.splits)
  finally show ?thesis .
qed

lemma discover_host:
  assumes "GOOS h' = GOOS h"
  shows "discover h' r (cleanedNamespace h' r) key dsts = discover h r (cleanedNamespace h r) key dsts"
proof -
  have w: "windows h' = windows h" using assms by (simp add: windows_def)
  have g: "getSeparator h' = getSeparator h" using assms by (simp add: getSeparator_def)
  have c: "cleanedNamespace h' r = cleanedNamespace h r" by (simp add: cleanedNamespace_def w)
  have l: "listPrefix h' r ns k = listPrefix h r ns k" for ns k unfolding listPrefix_def w g ..
  show ?thesis unfolding discover_def c l g ..
qed

lemma Restore_nil_host:
  assumes "GOOS h' = GOOS h"
  shows "fst (Restore h' r sched dsts) = Returns None \<longleftrightarrow> fst (Restore h r sched dsts) = Returns None"
proof (cases "generateKey r []")
  case Panics
  then show ?thesis by (simp add: Restore_def)
next
  case (Returns ke)
  obtain key kerr where ke: "ke = (key, kerr)" by (cases ke)
  show ?thesis
  proof (cases kerr)
    case (Some e)
    with Returns ke show ?thesis by (simp add: Restore_def)
  next
    case None
    obtain res evs where d: "discover h r (cleanedNamespace h r) key dsts = (res, evs)"
      by (cases "discover h r (cleanedNamespace h r) key dsts")
    with discover_host [OF assms, of r key dsts]
    have d': "discover h' r (cleanedNamespace h' r) key dsts = (res, evs)" by simp
    show ?thesis
    proof (cases res)
      case (Inl e)
      with Returns ke None d d' show ?thesis by (simp add: Restore_def)
    next
      case (Inr dsts')
      have t: "target h' (cleanedNamespace h' r) key = target h (cleanedNamespace h r) key"
        using assms by (simp add: target_def cleanedNamespace_def windows_def fun_eq_iff)
      from Returns ke None have key: "generateKey r [] = Returns (key, None)" by simp
      from Restore_nil_iff [OF key d [unfolded Inr], of sched]
           Restore_nil_iff [OF key d' [unfolded Inr], of sched] t
      show ?thesis by simp
    qed
  qed
qed

subsection \<open>Trimmed prefixes and discovered destinations\<close>

lemma TrimPrefix_empty_iff: "TrimPrefix str pre = [] \<longleftrightarrow> str = [] \<or> str = pre"
  by (auto simp: TrimPrefix_def HasPrefix_def)

lemma TrimPrefix_append: "TrimPrefix (pre @ rest) pre = rest"
  by (simp add: TrimPrefix_def HasPrefix_def)


lemma discover_listed:
  assumes "List (r_s r) (listPrefix h r ns key) = (entries, None)"
      and "\<not> (failIfKeyNotPresent r \<and> entries = [])"
  shows "discover h r ns key [] =
           (Inr (map (\<lambda>e. TrimPrefix (Path e) (stripPrefix h r ns key)) entries),
            [EvList (listPrefix h r ns key)])"
  using assms by (auto simp: discover_def stripPrefix_def Let_def)

lemma discover_given: "ds \<noteq> [] \<Longrightarrow> discover h r ns key ds = (Inr ds, [])"
  by (simp add: discover_def)

subsection \<open>Downloads\<close>

lemma filter_isGet_restore: "filter isGet (snd (restore h r src dst)) = [EvGet src]"
  by (simp add: restore_def writeCacheMetadata_def Let_def split: prod.splits option.splits)

lemma filter_isGet_task: "filter isGet (task h r sd) = [EvGet (fst sd)]"
  by (cases sd) (simp add: task_alt filter_isGet_restore split: option.splits)

lemma mset_gets_fanout:
  "mset (filter isGet (interleave sched (map (launch h r) ts) []))
     = mset (map (\<lambda>sd. EvGet (fst sd)) ts)"
proof -
  have "mset (filter isGet (interleave sched (map (launch h r) ts) []))
          = filter_mset isGet (mset (concat (map (\<lambda>sd. EvGo (fst sd) (snd sd) # task h r sd) ts)))"
    by (simp add: mset_interleave launch_steps)
  also have "\<dots> = mset (filter isGet (concat (map (\<lambda>sd. EvGo (fst sd) (snd sd) # task h r sd) ts)))"
    by simp
  also have "filter isGet (concat (map (\<lambda>sd. EvGo (fst sd) (snd sd) # task h r sd) ts))
          = map (\<lambda>sd. EvGet (fst sd)) ts"
    by (induction ts) (simp_all add: filter_isGet_task)
  finally show ?thesis .
qed

lemma stripPrefix_harness:
  "backend r = ''harness'' \<Longrightarrow>
   stripPrefix h r ns key =
     accountID r @ ''/intel/'' @ listPrefix h r ns key
       @ (if enableCacheKeySeparator r then [] else getSeparator h)"
  by (simp add: stripPrefix_def Let_def)

subsection \<open>The characters of a cleaned path\<close>






subsection \<open>The arguments of List and Get\<close>






subsection \<open>Unfolding for evaluation\<close>

lemmas path_defs = Join_def Clean_def Dir_def IsPathSeparator_def Separator_def FromSlash_def
  ToSlash_def HasSuffix_def HasPrefix_def TrimPrefix_def backslash_def

lemmas model_defs = Restore_def generateKey_def discover_def listPrefix_def getSeparator_def
  cleanedNamespace_def stripPrefix_def
  target_def launch_def task_def restore_def download_def writeCacheMetadata_def windows_def
  PLUGIN_CACHE_INTEL_FILE_NAME_def

lemmas sample_defs = sampleRestorer_def linuxHost_def windowsHost_def readOnlyHost_def
  listingStorage_def harnessRestorer_def
  sampleStorage_def sampleArchive_def sampleBytes_def sampleMarshal_def failingGenerator_def

section \<open>Key resolution\<close>

text \<open>
  C4. When the primary generator fails and a fallback generator is configured,
  \<^verbatim>\<open>generateKey\<close> returns what the fallback gives, for every \<open>parts\<close>: the
  fallback's key with no error when the fallback succeeds (the primary's error is
  dropped), and the fallback's error when the fallback fails too.
\<close>

theorem generateKey_fallback:
  assumes "r_g r = Some gen" and "gen parts = (k, Some e)" and "r_fg r = Some fgen"
  shows "(\<forall>k'. fgen parts = (k', None) \<longrightarrow> generateKey r parts = Returns (k', None))
       \<and> (\<forall>k' e'. fgen parts = (k', Some e') \<longrightarrow> generateKey r parts = Returns ([], Some e'))"
  using assms by (simp add: generateKey_def)

theorem generateKey_fallback_witness:
  "generateKey (sampleRestorer\<lparr>r_g := Some failingGenerator, r_fg := Some (\<lambda>parts. (''fb'', None))\<rparr>)
     [''x''] = Returns (''fb'', None)
   \<and> generateKey (sampleRestorer\<lparr>r_g := Some failingGenerator,
                        r_fg := Some (\<lambda>parts. ([], Some (External ''coarse'')))\<rparr>)
     [''x''] = Returns ([], Some (External ''coarse''))"
  using generateKey_fallback [of "sampleRestorer\<lparr>r_g := Some failingGenerator, r_fg := Some (\<lambda>parts. (''fb'', None))\<rparr>"
          failingGenerator "[''x'']" "[]" "External ''template''" "\<lambda>parts. (''fb'', None)"]
        generateKey_fallback [of "sampleRestorer\<lparr>r_g := Some failingGenerator,
                        r_fg := Some (\<lambda>parts. ([], Some (External ''coarse'')))\<rparr>"
          failingGenerator "[''x'']" "[]" "External ''template''" "\<lambda>parts. ([], Some (External ''coarse''))"]
  by (simp add: failingGenerator_def)

text \<open>
  C5, as the code has it. With a primary generator configured, \<^verbatim>\<open>generateKey\<close> never
  panics, and it returns an error exactly when the primary fails and the fallback is
  absent or fails too; \<^verbatim>\<open>Restore\<close> then returns that error wrapped by
  \<^verbatim>\<open>"generate key, %w"\<close>, having done nothing else.
\<close>

theorem generateKey_error_iff:
  assumes "r_g r = Some gen"
  shows "generateKey r parts \<noteq> Panics
       \<and> ((\<exists>k e. generateKey r parts = Returns (k, Some e)) \<longleftrightarrow>
            (snd (gen parts) \<noteq> None
             \<and> (case r_fg r of None \<Rightarrow> True | Some fgen \<Rightarrow> snd (fgen parts) \<noteq> None)))
       \<and> (\<forall>k e. generateKey r [] = Returns (k, Some e) \<longrightarrow>
            Restore h r sched dsts = (Returns (Some (Errorf ''generate key, %w'' [ArgE e])), []))"
  using assms
  by (auto simp: generateKey_def Restore_def split: prod.splits option.splits)

theorem generateKey_error_iff_witness:
  "generateKey (sampleRestorer\<lparr>r_g := Some failingGenerator\<rparr>) [] = Returns ([], Some (External ''template''))
   \<and> Restore linuxHost (sampleRestorer\<lparr>r_g := Some failingGenerator\<rparr>) [] [''a'']
       = (Returns (Some (Errorf ''generate key, %w'' [ArgE (External ''template'')])), [])"
proof -
  have g: "r_g (sampleRestorer\<lparr>r_g := Some failingGenerator\<rparr>) = Some failingGenerator"
    by simp
  have k: "generateKey (sampleRestorer\<lparr>r_g := Some failingGenerator\<rparr>) []
             = Returns ([], Some (External ''template''))"
    by (simp add: generateKey_def failingGenerator_def sampleRestorer_def)
  from generateKey_error_iff [OF g, of "[]" linuxHost "[]" "[''a'']"] k
  show ?thesis by simp
qed

text \<open>
  C5, as the claim states it, fails where no primary generator is configured: the call
  of \<^verbatim>\<open>Generate\<close> on the nil generator panics, so neither \<^verbatim>\<open>generateKey\<close> nor
  \<^verbatim>\<open>Restore\<close> returns an error.
\<close>

theorem generateKey_nil_primary_panics:
  "generateKey (sampleRestorer\<lparr>r_g := None\<rparr>) [] = Panics
   \<and> fst (Restore linuxHost (sampleRestorer\<lparr>r_g := None\<rparr>) [] [''a'']) = Panics"
  by (simp add: generateKey_def Restore_def)

section \<open>The fan-out of Restore\<close>

text \<open>
  C1, as the code has it. When key resolution and discovery succeed, then under every
  schedule: the run holds every step of the goroutine of every destination, up to its
  \<^verbatim>\<open>wg.Done\<close>, whether or not other destinations fail; \<^verbatim>\<open>Restore\<close> returns an
  error exactly when \<^verbatim>\<open>restore\<close> fails for some destination; and what it returns
  wraps a \<open>MultiError\<close> that holds the wrapped error of exactly the destinations that
  failed, each once (nil when there is none).
\<close>

theorem Restore_joins_and_aggregates:
  assumes key: "generateKey r [] = Returns (key, None)"
      and disc: "discover h r (cleanedNamespace h r) key dsts
                   = (Inr dsts', evs)"
      and ts: "ts = map (target h (cleanedNamespace h r) key) dsts'"
  shows "mset (snd (Restore h r sched dsts))
           = mset evs + mset (concat (map (\<lambda>sd. EvGo (fst sd) (snd sd) # task h r sd) ts)) + {#EvWait#}
       \<and> (fst (Restore h r sched dsts) \<noteq> Returns None
            \<longleftrightarrow> (\<exists>sd \<in> set ts. fst (restore h r (fst sd) (snd sd)) \<noteq> None))
       \<and> (\<exists>errs. mset errs = mset (concat (map (\<lambda>sd. added (task h r sd)) ts))
              \<and> fst (Restore h r sched dsts)
                  = (if errs = [] then Returns None
                     else Returns (Some (Errorf ''restore failed, %w'' [ArgE (MultiError errs)]))))"
proof -
  let ?run = "interleave sched (map (launch h r) ts) []"
  have R: "Restore h r sched dsts =
             (if added ?run \<noteq> []
              then Returns (Some (Errorf ''restore failed, %w'' [ArgE (MultiError (added ?run))]))
              else Returns None,
              evs @ ?run @ [EvWait])"
    using Restore_fanout [OF key disc, of sched] ts by (simp add: Let_def)
  have M: "mset (added ?run) = mset (concat (map (\<lambda>sd. added (task h r sd)) ts))"
    by (rule mset_added_fanout)
  have 1: "mset (snd (Restore h r sched dsts))
           = mset evs + mset (concat (map (\<lambda>sd. EvGo (fst sd) (snd sd) # task h r sd) ts)) + {#EvWait#}"
    by (simp add: R mset_interleave launch_steps)
  have "added ?run = [] \<longleftrightarrow> concat (map (\<lambda>sd. added (task h r sd)) ts) = []"
    using M by (metis mset_zero_iff)
  also have "\<dots> \<longleftrightarrow> (\<forall>sd \<in> set ts. fst (restore h r (fst sd) (snd sd)) = None)"
  proof -
    have "\<And>sd. added (task h r sd) = [] \<longleftrightarrow> fst (restore h r (fst sd) (snd sd)) = None"
    proof -
      fix sd :: "string \<times> string"
      show "added (task h r sd) = [] \<longleftrightarrow> fst (restore h r (fst sd) (snd sd)) = None"
        using added_task [of h r "fst sd" "snd sd"] by (simp split: option.splits)
    qed
    then show ?thesis by simp
  qed
  finally have E: "added ?run = [] \<longleftrightarrow> (\<forall>sd \<in> set ts. fst (restore h r (fst sd) (snd sd)) = None)" .
  have 2: "fst (Restore h r sched dsts) \<noteq> Returns None
            \<longleftrightarrow> (\<exists>sd \<in> set ts. fst (restore h r (fst sd) (snd sd)) \<noteq> None)"
    using E by (simp add: R)
  have 3: "\<exists>errs. mset errs = mset (concat (map (\<lambda>sd. added (task h r sd)) ts))
              \<and> fst (Restore h r sched dsts)
                  = (if errs = [] then Returns None
                     else Returns (Some (Errorf ''restore failed, %w'' [ArgE (MultiError errs)])))"
    by (rule exI [of _ "added ?run"]) (simp add: R M)
  from 1 2 3 show ?thesis by blast
qed

theorem Restore_joins_and_aggregates_witness:
  "generateKey sampleRestorer [] = Returns (''k'', None)
   \<and> discover linuxHost sampleRestorer ''ns'' ''k'' [''a'', ''bad''] = (Inr [''a'', ''bad''], [])
   \<and> fst (restore linuxHost sampleRestorer ''ns/k/bad'' ''bad'') \<noteq> None
   \<and> fst (Restore linuxHost sampleRestorer [0, 0, 2, 2, 2, 1] [''a'', ''bad'']) \<noteq> Returns None
   \<and> mset (snd (Restore linuxHost sampleRestorer [0, 0, 2, 2, 2, 1] [''a'', ''bad'']))
       = mset (EvGo ''ns/k/a'' ''a'' # task linuxHost sampleRestorer (''ns/k/a'', ''a'')
               @ EvGo ''ns/k/bad'' ''bad'' # task linuxHost sampleRestorer (''ns/k/bad'', ''bad'')
               @ [EvWait])"
proof -
  have ns: "cleanedNamespace linuxHost sampleRestorer = ''ns''"
    by (simp add: path_defs model_defs sample_defs)
  have key: "generateKey sampleRestorer [] = Returns (''k'', None)"
    by (simp add: model_defs sample_defs)
  have disc: "discover linuxHost sampleRestorer ''ns'' ''k'' [''a'', ''bad''] = (Inr [''a'', ''bad''], [])"
    by (simp add: discover_def)
  have ta: "target linuxHost ''ns'' ''k'' ''a'' = (''ns/k/a'', ''a'')"
    by (simp add: path_defs model_defs sample_defs)
  have tb: "target linuxHost ''ns'' ''k'' ''bad'' = (''ns/k/bad'', ''bad'')"
    by (simp add: path_defs model_defs sample_defs)
  have bad: "fst (restore linuxHost sampleRestorer ''ns/k/bad'' ''bad'') \<noteq> None"
    by (simp add: path_defs model_defs sample_defs)
  have disc': "discover linuxHost sampleRestorer
                 (cleanedNamespace linuxHost sampleRestorer)
                 ''k'' [''a'', ''bad''] = (Inr [''a'', ''bad''], [])"
    using disc ns by simp
  note T = Restore_joins_and_aggregates [OF key disc' refl, of "[0, 0, 2, 2, 2, 1]"]
  have 1: "fst (Restore linuxHost sampleRestorer [0, 0, 2, 2, 2, 1] [''a'', ''bad'']) \<noteq> Returns None"
    using T bad by (simp add: ns ta tb)
  have 2: "mset (snd (Restore linuxHost sampleRestorer [0, 0, 2, 2, 2, 1] [''a'', ''bad'']))
       = mset (EvGo ''ns/k/a'' ''a'' # task linuxHost sampleRestorer (''ns/k/a'', ''a'')
               @ EvGo ''ns/k/bad'' ''bad'' # task linuxHost sampleRestorer (''ns/k/bad'', ''bad'')
               @ [EvWait])"
    using T by (simp add: ns ta tb)
  from key disc bad 1 2 show ?thesis by blast
qed

text \<open>
  C1, as the claim states it, fails on a call whose key resolution fails: \<^verbatim>\<open>Restore\<close>
  returns an error although no destination failed (no goroutine was started, and the
  restore of the only destination would succeed).
\<close>

theorem Restore_key_error_without_failed_destination:
  "fst (Restore linuxHost (sampleRestorer\<lparr>r_g := Some failingGenerator\<rparr>) [] [''a''])
     = Returns (Some (Errorf ''generate key, %w'' [ArgE (External ''template'')]))
   \<and> snd (Restore linuxHost (sampleRestorer\<lparr>r_g := Some failingGenerator\<rparr>) [] [''a'']) = []
   \<and> fst (restore linuxHost (sampleRestorer\<lparr>r_g := Some failingGenerator\<rparr>) ''ns/k/a'' ''a'') = None"
  by (simp add: path_defs model_defs sample_defs)

section \<open>Discovery\<close>

text \<open>
  C10. \<^verbatim>\<open>Restore\<close> is called with no destination, the list operation is called (with
  some prefix \<open>p\<close>: key resolution has succeeded) and it returns the not-implemented
  sentinel, or it returns no entry while \<^verbatim>\<open>failIfKeyNotPresent\<close> is off. Then, under
  every schedule, \<^verbatim>\<open>Restore\<close> returns nil and the run is the call of \<^verbatim>\<open>List\<close> and the
  return of \<^verbatim>\<open>wg.Wait\<close> alone: no goroutine is started, nothing is fetched or
  extracted, no metadata artifact is written.
\<close>

theorem Restore_nothing_to_restore:
  assumes called: "EvList p \<in> set (snd (Restore h r sched []))"
      and listed: "snd (List (r_s r) p) = Some ErrNotImplemented
                   \<or> (List (r_s r) p = ([], None) \<and> \<not> failIfKeyNotPresent r)"
  shows "Restore h r sched [] = (Returns None, [EvList p, EvWait])"
proof -
  from EvList_in_Restore [OF called] obtain key
    where key: "generateKey r [] = Returns (key, None)"
      and p: "p = listPrefix h r (cleanedNamespace h r) key"
    by blast
  from listed p have "discover h r (cleanedNamespace h r) key [] = (Inr [], [EvList p])"
    by (auto simp: discover_def Let_def split: prod.splits option.splits)
  with key show ?thesis
    by (simp add: Restore_def interleave_nothing)
qed

theorem Restore_nothing_to_restore_witness:
  "EvList ''ns/k'' \<in> set (snd (Restore linuxHost sampleRestorer [0, 1, 2] []))
   \<and> snd (List (r_s sampleRestorer) ''ns/k'') = Some ErrNotImplemented
   \<and> Restore linuxHost sampleRestorer [0, 1, 2] [] = (Returns None, [EvList ''ns/k'', EvWait])
   \<and> EvList ''ns/k'' \<in> set (snd (Restore linuxHost
         (sampleRestorer\<lparr>r_s := sampleStorage\<lparr>List := (\<lambda>prefix. ([], None))\<rparr>\<rparr>) [] []))
   \<and> Restore linuxHost (sampleRestorer\<lparr>r_s := sampleStorage\<lparr>List := (\<lambda>prefix. ([], None))\<rparr>\<rparr>) [] []
       = (Returns None, [EvList ''ns/k'', EvWait])"
proof -
  have c1: "EvList ''ns/k'' \<in> set (snd (Restore linuxHost sampleRestorer [0, 1, 2] []))"
    by (simp add: path_defs model_defs sample_defs interleave_nothing)
  have l1: "snd (List (r_s sampleRestorer) ''ns/k'') = Some ErrNotImplemented"
    by (simp add: sample_defs)
  have c2: "EvList ''ns/k'' \<in> set (snd (Restore linuxHost
         (sampleRestorer\<lparr>r_s := sampleStorage\<lparr>List := (\<lambda>prefix. ([], None))\<rparr>\<rparr>) [] []))"
    by (simp add: path_defs model_defs sample_defs)
  have l2: "List (r_s (sampleRestorer\<lparr>r_s := sampleStorage\<lparr>List := (\<lambda>prefix. ([], None))\<rparr>\<rparr>)) ''ns/k'' = ([], None)
            \<and> \<not> failIfKeyNotPresent (sampleRestorer\<lparr>r_s := sampleStorage\<lparr>List := (\<lambda>prefix. ([], None))\<rparr>\<rparr>)"
    by (simp add: sample_defs)
  from Restore_nothing_to_restore [OF c1 disjI1 [OF l1]]
       Restore_nothing_to_restore [OF c2 disjI2 [OF l2]] c1 l1 c2
  show ?thesis by blast
qed

text \<open>
  C6. When the list operation is called during discovery and returns the
  not-implemented sentinel, \<^verbatim>\<open>Restore\<close> returns nil, and the discovery returns no error
  and leaves the destinations as the caller gave them. The last part holds for every
  namespace, key and destination list: where listing is not implemented the discovery
  yields the caller's destinations unchanged.
\<close>

theorem Restore_list_not_implemented:
  assumes called: "EvList p \<in> set (snd (Restore h r sched dsts))"
      and notimpl: "snd (List (r_s r) p) = Some ErrNotImplemented"
  shows "fst (Restore h r sched dsts) = Returns None
       \<and> (\<exists>key. generateKey r [] = Returns (key, None)
              \<and> p = listPrefix h r (cleanedNamespace h r) key
              \<and> discover h r (cleanedNamespace h r) key dsts = (Inr dsts, [EvList p]))
       \<and> (\<forall>ns key ds. snd (List (r_s r) (listPrefix h r ns key)) = Some ErrNotImplemented
              \<longrightarrow> fst (discover h r ns key ds) = Inr ds)"
proof -
  from EvList_in_Restore [OF called] obtain key
    where key: "generateKey r [] = Returns (key, None)" and dsts: "dsts = []"
      and p: "p = listPrefix h r (cleanedNamespace h r) key"
    by blast
  from notimpl p dsts
  have d: "discover h r (cleanedNamespace h r) key dsts = (Inr dsts, [EvList p])"
    by (auto simp: discover_def Let_def split: prod.splits option.splits)
  from key d dsts have 1: "fst (Restore h r sched dsts) = Returns None"
    by (simp add: Restore_def interleave_nothing)
  have 3: "\<forall>ns key ds. snd (List (r_s r) (listPrefix h r ns key)) = Some ErrNotImplemented
              \<longrightarrow> fst (discover h r ns key ds) = Inr ds"
    by (auto simp: discover_def Let_def split: prod.splits option.splits)
  from 1 key p d 3 show ?thesis by blast
qed

theorem Restore_list_not_implemented_witness:
  "EvList ''ns/k'' \<in> set (snd (Restore linuxHost sampleRestorer [] []))
   \<and> snd (List (r_s sampleRestorer) ''ns/k'') = Some ErrNotImplemented
   \<and> fst (Restore linuxHost sampleRestorer [] []) = Returns None
   \<and> discover linuxHost sampleRestorer ''ns'' ''k'' [] = (Inr [], [EvList ''ns/k''])
   \<and> fst (discover linuxHost sampleRestorer ''ns'' ''k'' [''a'']) = Inr [''a'']"
proof -
  have c: "EvList ''ns/k'' \<in> set (snd (Restore linuxHost sampleRestorer [] []))"
    by (simp add: path_defs model_defs sample_defs)
  have l: "snd (List (r_s sampleRestorer) ''ns/k'') = Some ErrNotImplemented"
    by (simp add: sample_defs)
  have ns: "cleanedNamespace linuxHost sampleRestorer = ''ns''"
    by (simp add: path_defs model_defs sample_defs)
  have key: "generateKey sampleRestorer [] = Returns (''k'', None)"
    by (simp add: model_defs sample_defs)
  have lp: "listPrefix linuxHost sampleRestorer ''ns'' ''k'' = ''ns/k''"
    by (simp add: path_defs model_defs sample_defs)
  note T = Restore_list_not_implemented [OF c l]
  from T have 1: "fst (Restore linuxHost sampleRestorer [] []) = Returns None" by blast
  from T key ns have 2: "discover linuxHost sampleRestorer ''ns'' ''k'' [] = (Inr [], [EvList ''ns/k''])"
    by auto
  from T lp l have 3: "fst (discover linuxHost sampleRestorer ''ns'' ''k'' [''a'']) = Inr [''a'']"
    by metis
  from c l 1 2 3 show ?thesis by blast
qed

section \<open>The metadata artifact\<close>

text \<open>
  C2, as the code has it. When key resolution and discovery succeed, then under every
  schedule the writes of the metadata artifact in the run are exactly the writes of the
  destinations' own \<^verbatim>\<open>restore\<close> calls, which run inside the goroutines; a
  \<^verbatim>\<open>restore\<close> writes once when its extraction succeeds (and the encoding and the
  creation of the directory succeed) and not otherwise, and what it writes is the encoded
  size of what was extracted for its own destination; every write comes before the return
  of \<^verbatim>\<open>wg.Wait\<close>, which is the last event of the run.
\<close>

theorem metadata_written_per_destination:
  assumes key: "generateKey r [] = Returns (key, None)"
      and disc: "discover h r (cleanedNamespace h r) key dsts = (Inr dsts', evs)"
      and ts: "ts = map (target h (cleanedNamespace h r) key) dsts'"
  shows "mset (filter isWriteFile (snd (Restore h r sched dsts)))
           = mset (concat (map (\<lambda>sd. filter isWriteFile (snd (restore h r (fst sd) (snd sd)))) ts))
       \<and> (\<forall>src dst. filter isWriteFile (snd (restore h r src dst)) =
            (case Extract (r_a r) dst (download r src) of
               (written, Some e) \<Rightarrow> []
             | (written, None) \<Rightarrow>
                 (case MarshalIndent h \<lparr>CacheSize = Bytes h written\<rparr> of
                    (b, Some e) \<Rightarrow> []
                  | (b, None) \<Rightarrow>
                      (case MkdirAll h (Dir (windows h) PLUGIN_CACHE_INTEL_FILE_NAME) 420 of
                         Some e \<Rightarrow> []
                       | None \<Rightarrow> [EvWriteFile PLUGIN_CACHE_INTEL_FILE_NAME b]))))
       \<and> (\<exists>tr. snd (Restore h r sched dsts) = tr @ [EvWait] \<and> EvWait \<notin> set tr)"
proof -
  let ?run = "interleave sched (map (launch h r) ts) []"
  have R: "snd (Restore h r sched dsts) = evs @ ?run @ [EvWait]"
    using Restore_fanout [OF key disc, of sched] ts by (simp add: Let_def)
  have evs: "filter isWriteFile evs = [] \<and> EvWait \<notin> set evs"
    using discover_events [of h r "cleanedNamespace h r" key dsts] disc by (simp split: if_splits)
  have 1: "mset (filter isWriteFile (snd (Restore h r sched dsts)))
           = mset (concat (map (\<lambda>sd. filter isWriteFile (snd (restore h r (fst sd) (snd sd)))) ts))"
    using mset_writes_fanout [of sched h r ts] evs by (simp add: R)
  have "EvWait \<notin> set ?run"
    using fanout_events [of EvWait sched h r ts] by auto
  with evs have 3: "\<exists>tr. snd (Restore h r sched dsts) = tr @ [EvWait] \<and> EvWait \<notin> set tr"
    by (intro exI [of _ "evs @ ?run"]) (simp add: R)
  from 1 writes_of_restore 3 show ?thesis by blast
qed

theorem metadata_written_per_destination_witness:
  "generateKey sampleRestorer [] = Returns (''k'', None)
   \<and> discover linuxHost sampleRestorer ''ns'' ''k'' [''a'', ''bad''] = (Inr [''a'', ''bad''], [])
   \<and> mset (filter isWriteFile (snd (Restore linuxHost sampleRestorer [2, 0, 1, 1] [''a'', ''bad''])))
       = {#EvWriteFile ''plugin-cache-intel.json'' ''{ cache_size: 4 B }''#}"
proof -
  have ns: "cleanedNamespace linuxHost sampleRestorer = ''ns''"
    by (simp add: path_defs model_defs sample_defs)
  have key: "generateKey sampleRestorer [] = Returns (''k'', None)"
    by (simp add: model_defs sample_defs)
  have disc: "discover linuxHost sampleRestorer ''ns'' ''k'' [''a'', ''bad''] = (Inr [''a'', ''bad''], [])"
    by (simp add: discover_def)
  have disc': "discover linuxHost sampleRestorer (cleanedNamespace linuxHost sampleRestorer)
                 ''k'' [''a'', ''bad''] = (Inr [''a'', ''bad''], [])"
    using disc ns by simp
  have ta: "target linuxHost ''ns'' ''k'' ''a'' = (''ns/k/a'', ''a'')"
    by (simp add: path_defs model_defs sample_defs)
  have tb: "target linuxHost ''ns'' ''k'' ''bad'' = (''ns/k/bad'', ''bad'')"
    by (simp add: path_defs model_defs sample_defs)
  have wa: "filter isWriteFile (snd (restore linuxHost sampleRestorer ''ns/k/a'' ''a''))
              = [EvWriteFile ''plugin-cache-intel.json'' ''{ cache_size: 4 B }'']"
    by (simp add: path_defs model_defs sample_defs)
  have wb: "filter isWriteFile (snd (restore linuxHost sampleRestorer ''ns/k/bad'' ''bad'')) = []"
    by (simp add: path_defs model_defs sample_defs)
  from metadata_written_per_destination [OF key disc' refl, of "[2, 0, 1, 1]"]
  have "mset (filter isWriteFile (snd (Restore linuxHost sampleRestorer [2, 0, 1, 1] [''a'', ''bad''])))
       = {#EvWriteFile ''plugin-cache-intel.json'' ''{ cache_size: 4 B }''#}"
    by (simp add: ns ta tb wa wb)
  with key disc show ?thesis by blast
qed

text \<open>
  C2, as the claim states it, fails: with two destinations that both succeed the artifact
  is written twice, each time from inside a goroutine before \<^verbatim>\<open>wg.Wait\<close> returns, each
  time with the size of one destination (4 B) although 8 bytes were restored in all;
  and with one destination that succeeds and one that fails it is written although
  \<^verbatim>\<open>Restore\<close> returns an error.
\<close>

theorem metadata_written_inside_tasks:
  "Restore linuxHost sampleRestorer [] [''a'', ''b'']
     = (Returns None,
        [EvGo ''ns/k/a'' ''a'', EvGet ''ns/k/a'', EvExtract ''a'', EvMkdirAll ''.'',
         EvWriteFile ''plugin-cache-intel.json'' ''{ cache_size: 4 B }'', EvDone ''ns/k/a'' ''a'',
         EvGo ''ns/k/b'' ''b'', EvGet ''ns/k/b'', EvExtract ''b'', EvMkdirAll ''.'',
         EvWriteFile ''plugin-cache-intel.json'' ''{ cache_size: 4 B }'', EvDone ''ns/k/b'' ''b'',
         EvWait])
   \<and> fst (Extract (r_a sampleRestorer) ''a'' (download sampleRestorer ''ns/k/a''))
       + fst (Extract (r_a sampleRestorer) ''b'' (download sampleRestorer ''ns/k/b'')) = 8
   \<and> fst (Restore linuxHost sampleRestorer [] [''a'', ''bad'']) \<noteq> Returns None
   \<and> filter isWriteFile (snd (Restore linuxHost sampleRestorer [] [''a'', ''bad'']))
       = [EvWriteFile ''plugin-cache-intel.json'' ''{ cache_size: 4 B }'']"
  by (simp add: path_defs model_defs sample_defs)

text \<open>
  C9. When the extraction of a destination succeeds and \<^verbatim>\<open>writeCacheMetadata\<close> returns
  an error, \<^verbatim>\<open>restore\<close> still returns nil and the goroutine adds no error; and whether
  \<^verbatim>\<open>Restore\<close> returns nil does not depend on what the encoder, \<^verbatim>\<open>os.MkdirAll\<close> and
  \<^verbatim>\<open>os.WriteFile\<close> do, under any schedule.
\<close>

theorem metadata_write_failure_not_propagated:
  "(\<forall>written werr. Extract (r_a r) dst (download r src) = (written, None)
        \<and> fst (writeCacheMetadata h \<lparr>CacheSize = Bytes h written\<rparr> PLUGIN_CACHE_INTEL_FILE_NAME) = Some werr
      \<longrightarrow> fst (restore h r src dst) = None \<and> added (task h r (src, dst)) = [])
   \<and> (fst (Restore (h\<lparr>MarshalIndent := m, MkdirAll := d, WriteFile := w\<rparr>) r sched dsts) = Returns None
        \<longleftrightarrow> fst (Restore h r sched dsts) = Returns None)"
proof -
  have 1: "\<forall>written werr. Extract (r_a r) dst (download r src) = (written, None)
        \<and> fst (writeCacheMetadata h \<lparr>CacheSize = Bytes h written\<rparr> PLUGIN_CACHE_INTEL_FILE_NAME) = Some werr
      \<longrightarrow> fst (restore h r src dst) = None \<and> added (task h r (src, dst)) = []"
    by (simp add: added_task fst_restore)
  have 2: "fst (Restore (h\<lparr>MarshalIndent := m, MkdirAll := d, WriteFile := w\<rparr>) r sched dsts) = Returns None
        \<longleftrightarrow> fst (Restore h r sched dsts) = Returns None"
    by (rule Restore_nil_host) simp
  from 1 2 show ?thesis by blast
qed

theorem metadata_write_failure_not_propagated_witness:
  "Extract (r_a sampleRestorer) ''a'' (download sampleRestorer ''ns/k/a'') = (4, None)
   \<and> fst (writeCacheMetadata readOnlyHost \<lparr>CacheSize = Bytes readOnlyHost 4\<rparr> PLUGIN_CACHE_INTEL_FILE_NAME)
       = Some (Errorf ''failed to write cache metrics to cache metrics file %s''
                 [ArgS ''plugin-cache-intel.json''])
   \<and> fst (restore readOnlyHost sampleRestorer ''ns/k/a'' ''a'') = None
   \<and> added (task readOnlyHost sampleRestorer (''ns/k/a'', ''a'')) = []
   \<and> fst (Restore readOnlyHost sampleRestorer [] [''a'']) = Returns None"
proof -
  have x: "Extract (r_a sampleRestorer) ''a'' (download sampleRestorer ''ns/k/a'') = (4, None)"
    by (simp add: path_defs model_defs sample_defs)
  have w: "fst (writeCacheMetadata readOnlyHost \<lparr>CacheSize = Bytes readOnlyHost 4\<rparr> PLUGIN_CACHE_INTEL_FILE_NAME)
       = Some (Errorf ''failed to write cache metrics to cache metrics file %s''
                 [ArgS ''plugin-cache-intel.json''])"
    by (simp add: path_defs model_defs sample_defs)
  have ro: "readOnlyHost = linuxHost\<lparr>MarshalIndent := sampleMarshal, MkdirAll := (\<lambda>dir perm. None),
              WriteFile := (\<lambda>name b perm. Some (External ''read-only file system''))\<rparr>"
    by (simp add: sample_defs)
  have ok: "fst (Restore linuxHost sampleRestorer [] [''a'']) = Returns None"
    by (simp add: path_defs model_defs sample_defs)
  note T = metadata_write_failure_not_propagated
             [where r = sampleRestorer and dst = "''a''" and src = "''ns/k/a''" and h = readOnlyHost]
  from T x w have 1: "fst (restore readOnlyHost sampleRestorer ''ns/k/a'' ''a'') = None
                      \<and> added (task readOnlyHost sampleRestorer (''ns/k/a'', ''a'')) = []"
    by blast
  from metadata_write_failure_not_propagated
         [where r = sampleRestorer and dst = "''a''" and src = "''ns/k/a''" and h = linuxHost
            and m = sampleMarshal and d = "\<lambda>dir perm. None"
            and w = "\<lambda>name b perm. Some (External ''read-only file system'')"
            and sched = "[]" and dsts = "[''a'']"]
       ok ro
  have 2: "fst (Restore readOnlyHost sampleRestorer [] [''a'']) = Returns None"
    by simp
  from x w 1 2 show ?thesis by blast
qed

section \<open>Destinations of discovered entries\<close>

text \<open>
  C8, as the code has it. The destination that the discovery derives from a listed entry
  is the entry's path with \<open>stripPrefix\<close> trimmed, and it is empty exactly when the path
  is empty or is the stripped prefix itself; so an entry below the prefix gives a
  non-empty destination. Destinations that the caller supplies are used as they are,
  with no check.
\<close>

theorem discovered_destination_empty_iff:
  assumes listed: "List (r_s r) (listPrefix h r ns key) = (entries, None)"
      and found: "\<not> (failIfKeyNotPresent r \<and> entries = [])"
  shows "fst (discover h r ns key []) = Inr (map (\<lambda>e. TrimPrefix (Path e) (stripPrefix h r ns key)) entries)
       \<and> (\<forall>e \<in> set entries.
            TrimPrefix (Path e) (stripPrefix h r ns key) = []
              \<longleftrightarrow> Path e = [] \<or> Path e = stripPrefix h r ns key)
       \<and> (\<forall>ds. ds \<noteq> [] \<longrightarrow> fst (discover h r ns key ds) = Inr ds)"
  using discover_listed [OF listed found]
  by (simp add: TrimPrefix_empty_iff discover_given)

theorem discovered_destination_empty_iff_witness:
  "List (r_s harnessRestorer) (listPrefix linuxHost harnessRestorer ''ns'' ''k'')
     = ([\<lparr>Path = ''acct/intel/ns/k/a'', Size = 4\<rparr>], None)
   \<and> stripPrefix linuxHost harnessRestorer ''ns'' ''k'' = ''acct/intel/ns/k/''
   \<and> fst (discover linuxHost harnessRestorer ''ns'' ''k'' []) = Inr [''a'']
   \<and> fst (discover linuxHost harnessRestorer ''ns'' ''k'' [''x'']) = Inr [''x'']"
proof -
  have l: "List (r_s harnessRestorer) (listPrefix linuxHost harnessRestorer ''ns'' ''k'')
             = ([\<lparr>Path = ''acct/intel/ns/k/a'', Size = 4\<rparr>], None)"
    by (simp add: sample_defs)
  have f: "\<not> (failIfKeyNotPresent harnessRestorer \<and> [\<lparr>Path = ''acct/intel/ns/k/a'', Size = 4\<rparr>] = [])"
    by simp
  have sp: "stripPrefix linuxHost harnessRestorer ''ns'' ''k'' = ''acct/intel/ns/k/''"
    by (simp add: path_defs model_defs sample_defs)
  have tp: "TrimPrefix ''acct/intel/ns/k/a'' ''acct/intel/ns/k/'' = ''a''"
    by (simp add: path_defs)
  note T = discovered_destination_empty_iff [OF l f]
  from T have 1: "fst (discover linuxHost harnessRestorer ''ns'' ''k'' []) = Inr [''a'']"
    by (simp add: sp tp)
  from T have 2: "fst (discover linuxHost harnessRestorer ''ns'' ''k'' [''x'']) = Inr [''x'']"
    by simp
  from l sp 1 2 show ?thesis by blast
qed

text \<open>
  C8, as the claim states it, fails: \<^verbatim>\<open>Restore\<close> restores the empty destination that a
  caller supplies, and the discovery derives the empty destination from a listed entry
  whose path is the prefix with its separator (\<^verbatim>\<open>ns/k/\<close>).
\<close>

theorem empty_destination_restored:
  "Restore linuxHost sampleRestorer [] [[]]
     = (Returns None,
        [EvGo ''ns/k'' [], EvGet ''ns/k'', EvExtract [], EvMkdirAll ''.'',
         EvWriteFile ''plugin-cache-intel.json'' ''{ cache_size: 4 B }'', EvDone ''ns/k'' [],
         EvWait])
   \<and> fst (discover linuxHost (sampleRestorer\<lparr>r_s := listingStorage ''ns/k/''\<rparr>) ''ns'' ''k'' [])
       = Inr [[]]"
  by (simp add: path_defs model_defs sample_defs)

section \<open>The harness backend\<close>

text \<open>
  C3, as the code has it. On the harness backend, when every listed path is the routing
  prefix \<^verbatim>\<open>accountID + "/intel/"\<close>, the list prefix (and the separator, when
  \<^verbatim>\<open>enableCacheKeySeparator\<close> is off) and a rest \<open>rel e\<close>, the discovered destinations are
  these rests: the routing prefix is stripped together with the cache prefix. The remote
  sources that \<^verbatim>\<open>Get\<close> is called with, under every schedule, are
  \<^verbatim>\<open>filepath.Join(namespace, key, dst)\<close> of these destinations: the routing prefix is not
  put back.
\<close>

theorem harness_routing_prefix_stripped_only:
  assumes harness: "backend r = ''harness''"
      and key: "generateKey r [] = Returns (key, None)"
      and listed: "List (r_s r) (listPrefix h r (cleanedNamespace h r) key) = (entries, None)"
      and found: "\<not> (failIfKeyNotPresent r \<and> entries = [])"
      and routed: "\<forall>e \<in> set entries.
                     Path e = accountID r @ ''/intel/'' @ listPrefix h r (cleanedNamespace h r) key
                                @ (if enableCacheKeySeparator r then [] else getSeparator h) @ rel e"
  shows "fst (discover h r (cleanedNamespace h r) key []) = Inr (map rel entries)
       \<and> mset (filter isGet (snd (Restore h r sched [])))
           = mset (map (\<lambda>e. EvGet (Join (windows h) [cleanedNamespace h r, key, rel e])) entries)"
proof -
  let ?ns = "cleanedNamespace h r"
  have "TrimPrefix (Path e) (stripPrefix h r ?ns key) = rel e" if "e \<in> set entries" for e
  proof -
    from routed that have "Path e = stripPrefix h r ?ns key @ rel e"
      by (simp add: stripPrefix_harness [OF harness])
    then show ?thesis by (simp add: TrimPrefix_append)
  qed
  then have "map (\<lambda>e. TrimPrefix (Path e) (stripPrefix h r ?ns key)) entries = map rel entries"
    by simp
  with discover_listed [OF listed found]
  have d: "discover h r ?ns key [] = (Inr (map rel entries), [EvList (listPrefix h r ?ns key)])"
    by simp
  have "snd (Restore h r sched []) =
          [EvList (listPrefix h r ?ns key)]
          @ interleave sched (map (launch h r) (map (target h ?ns key) (map rel entries))) []
          @ [EvWait]"
    using Restore_fanout [OF key d, of sched] by (simp add: Let_def)
  then have "mset (filter isGet (snd (Restore h r sched [])))
          = mset (map (\<lambda>sd. EvGet (fst sd)) (map (target h ?ns key) (map rel entries)))"
    using mset_gets_fanout [of sched h r "map (target h ?ns key) (map rel entries)"] by simp
  also have "map (\<lambda>sd. EvGet (fst sd)) (map (target h ?ns key) (map rel entries))
          = map (\<lambda>e. EvGet (Join (windows h) [?ns, key, rel e])) entries"
    by (simp add: target_def comp_def)
  finally show ?thesis using d by simp
qed

theorem harness_routing_prefix_stripped_only_witness:
  "backend harnessRestorer = ''harness''
   \<and> generateKey harnessRestorer [] = Returns (''k'', None)
   \<and> List (r_s harnessRestorer) ''ns/k'' = ([\<lparr>Path = ''acct/intel/ns/k/a'', Size = 4\<rparr>], None)
   \<and> fst (discover linuxHost harnessRestorer ''ns'' ''k'' []) = Inr [''a'']
   \<and> mset (filter isGet (snd (Restore linuxHost harnessRestorer [0, 1, 1] []))) = {#EvGet ''ns/k/a''#}"
proof -
  have b: "backend harnessRestorer = ''harness''"
    by (simp add: sample_defs)
  have ns: "cleanedNamespace linuxHost harnessRestorer = ''ns''"
    by (simp add: path_defs model_defs sample_defs)
  have key: "generateKey harnessRestorer [] = Returns (''k'', None)"
    by (simp add: model_defs sample_defs)
  have lp: "listPrefix linuxHost harnessRestorer ''ns'' ''k'' = ''ns/k''"
    by (simp add: path_defs model_defs sample_defs)
  have l: "List (r_s harnessRestorer) ''ns/k'' = ([\<lparr>Path = ''acct/intel/ns/k/a'', Size = 4\<rparr>], None)"
    by (simp add: sample_defs)
  have l': "List (r_s harnessRestorer)
              (listPrefix linuxHost harnessRestorer (cleanedNamespace linuxHost harnessRestorer) ''k'')
              = ([\<lparr>Path = ''acct/intel/ns/k/a'', Size = 4\<rparr>], None)"
    using l by (simp add: ns lp)
  have f: "\<not> (failIfKeyNotPresent harnessRestorer \<and> [\<lparr>Path = ''acct/intel/ns/k/a'', Size = 4\<rparr>] = [])"
    by simp
  have routed: "\<forall>e \<in> set [\<lparr>Path = ''acct/intel/ns/k/a'', Size = 4\<rparr>].
                  Path e = accountID harnessRestorer @ ''/intel/''
                    @ listPrefix linuxHost harnessRestorer (cleanedNamespace linuxHost harnessRestorer) ''k''
                    @ (if enableCacheKeySeparator harnessRestorer then [] else getSeparator linuxHost)
                    @ (\<lambda>e. ''a'') e"
    by (simp add: ns lp) (simp add: model_defs sample_defs)
  have j: "Join (windows linuxHost) [''ns'', ''k'', ''a''] = ''ns/k/a''"
    by (simp add: path_defs model_defs sample_defs)
  note T = harness_routing_prefix_stripped_only [OF b key l' f routed, of "[0, 1, 1]"]
  from T have 1: "fst (discover linuxHost harnessRestorer ''ns'' ''k'' []) = Inr [''a'']"
    by (simp add: ns)
  from T have 2: "mset (filter isGet (snd (Restore linuxHost harnessRestorer [0, 1, 1] []))) = {#EvGet ''ns/k/a''#}"
    by (simp add: ns j)
  from b key l 1 2 show ?thesis by blast
qed

text \<open>
  C3, as the claim states it, fails: for the listed entry \<^verbatim>\<open>acct/intel/ns/k/a\<close> the
  download is made from \<^verbatim>\<open>ns/k/a\<close>, which does not carry the routing prefix.
\<close>

theorem harness_download_source_unrouted:
  "Restore linuxHost harnessRestorer [] []
     = (Returns None,
        [EvList ''ns/k'', EvGo ''ns/k/a'' ''a'', EvGet ''ns/k/a'', EvExtract ''a'', EvMkdirAll ''.'',
         EvWriteFile ''plugin-cache-intel.json'' ''{ cache_size: 4 B }'', EvDone ''ns/k/a'' ''a'',
         EvWait])
   \<and> \<not> HasPrefix ''ns/k/a'' (accountID harnessRestorer @ ''/intel/'')"
  by (simp add: path_defs model_defs sample_defs)

section \<open>The separator of remote paths\<close>




end
